theory Spec2Isabelle
  imports Main
begin

section \<open>Values of the sample data\<close>

text \<open>
  The entities live in three module-level arrays (\<^verbatim>\<open>users\<close>, \<^verbatim>\<open>posts\<close>,
  \<^verbatim>\<open>comments\<close>) that are loaded from \<^verbatim>\<open>./data/*\<close>; their contents are a parameter of
  every statement below. An id is a JavaScript number (a seeded id, or
  \<^verbatim>\<open>length + 1\<close>) or a string (an argument of type \<^verbatim>\<open>ID\<close> as the GraphQL engine
  hands it over). The optional \<^verbatim>\<open>image\<close> of a post is absent, null or a string.
\<close>

datatype js_id = IdNum int | IdStr string

datatype js_image = ImgUndefined | ImgNull | ImgStr string

datatype js_error = TypeError

datatype AvatarSizes = S_32 | S_64 | S_128 | S_512

subsection \<open>The comparison \<^verbatim>\<open>==\<close>\<close>

text \<open>
  All lookups compare ids with \<^verbatim>\<open>==\<close>. Two numbers are equal when they are the same
  number and two strings when they are the same text; a number and a string are compared
  after the language runtime has read the string as a number. That reading is not code of
  this program, so it is a parameter \<open>tn\<close> of every resolver that compares ids:
  \<open>tn t = Some n\<close> when the runtime reads the text \<open>t\<close> as the whole number \<open>n\<close>, and
  \<open>tn t = None\<close> when it reads \<open>t\<close> as no whole number. Every statement below holds for
  every such reading. A numeric id is a whole number, as every id the program assigns is.
\<close>

type_synonym to_number = "string \<Rightarrow> int option"

fun loose_eq :: "to_number \<Rightarrow> js_id \<Rightarrow> js_id \<Rightarrow> bool" where
  "loose_eq tn (IdNum a) (IdNum b) = (a = b)"
| "loose_eq tn (IdStr a) (IdStr b) = (a = b)"
| "loose_eq tn (IdNum a) (IdStr b) = (tn b = Some a)"
| "loose_eq tn (IdStr a) (IdNum b) = (tn a = Some b)"

subsection \<open>Resolver functions attached to entities\<close>

text \<open>
  The resolvers attach arrow functions to the stored objects. Each function is kept as
  the variables it closes over. A reference to a stored object is its index in its array:
  the arrays only grow at the end, so an index names the same object for ever.

  \<^item> \<^verbatim>\<open>({size}) => 'https://picsum.photos/'+size.substr(2)\<close> closes over nothing;
  \<^item> \<^verbatim>\<open>() => root.user({id: post.authorId})\<close> closes over \<^verbatim>\<open>post\<close>, which is a
    stored post or, inside \<^verbatim>\<open>comments\<close>, possibly \<^verbatim>\<open>undefined\<close>;
  \<^item> \<^verbatim>\<open>() => root.comments({postId: id})\<close> closes over the argument \<^verbatim>\<open>id\<close>, and
    \<^verbatim>\<open>() => root.comments({postId: post.id})\<close> over the post;
  \<^item> \<^verbatim>\<open>() => post\<close> closes over the result of \<^verbatim>\<open>root.post\<close>.
\<close>

datatype avatar_fn = AvatarFn

datatype author_fn = UserOfPost "nat option"

datatype comments_fn = CommentsOfArg js_id | CommentsOfPost nat

datatype post_fn = ConstPost "nat option"

record user_obj =
  u_id :: js_id
  u_name :: string
  u_email :: string
  u_avatar :: "avatar_fn option"

record post_obj =
  p_id :: js_id
  p_title :: string
  p_text :: string
  p_authorId :: js_id
  p_image :: js_image
  p_createdAt :: string
  p_author :: "author_fn option"
  p_comments :: "comments_fn option"

record comment_obj =
  c_id :: js_id
  c_text :: string
  c_authorId :: js_id
  c_createdAt :: string
  c_postId :: js_id
  c_post :: "post_fn option"
  c_author :: "author_fn option"

record store =
  users_arr :: "user_obj list"
  posts_arr :: "post_obj list"
  comments_arr :: "comment_obj list"

record CommentInput =
  ci_authorId :: js_id
  ci_postId :: js_id
  ci_text :: string

record PostInput =
  pi_authorId :: js_id
  pi_title :: string
  pi_text :: string
  pi_image :: js_image

section \<open>The resolvers of \<^verbatim>\<open>root\<close>\<close>

text \<open>\<^verbatim>\<open>Array.prototype.find\<close>, returning the reference of the first match.\<close>

fun find_ref :: "('a \<Rightarrow> bool) \<Rightarrow> 'a list \<Rightarrow> nat option" where
  "find_ref P [] = None"
| "find_ref P (x # xs) = (if P x then Some 0 else map_option Suc (find_ref P xs))"

definition fallback_image :: string where
  "fallback_image = ''https://picsum.photos/600/400''"

definition enum_name :: "AvatarSizes \<Rightarrow> string" where
  "enum_name z = (case z of S_32 \<Rightarrow> ''S_32'' | S_64 \<Rightarrow> ''S_64'' | S_128 \<Rightarrow> ''S_128'' | S_512 \<Rightarrow> ''S_512'')"

text \<open>The avatar function: \<^verbatim>\<open>'https://picsum.photos/'+size.substr(2)\<close>.\<close>

definition avatar :: "AvatarSizes \<Rightarrow> string" where
  "avatar sz = ''https://picsum.photos/'' @ drop 2 (enum_name sz)"

text \<open>Assignments to a property of a stored object.\<close>

definition set_user :: "nat \<Rightarrow> (user_obj \<Rightarrow> user_obj) \<Rightarrow> store \<Rightarrow> store" where
  "set_user i f s = s\<lparr>users_arr := (users_arr s)[i := f (users_arr s ! i)]\<rparr>"

definition set_post :: "nat \<Rightarrow> (post_obj \<Rightarrow> post_obj) \<Rightarrow> store \<Rightarrow> store" where
  "set_post i f s = s\<lparr>posts_arr := (posts_arr s)[i := f (posts_arr s ! i)]\<rparr>"

definition set_comment :: "nat \<Rightarrow> (comment_obj \<Rightarrow> comment_obj) \<Rightarrow> store \<Rightarrow> store" where
  "set_comment i f s = s\<lparr>comments_arr := (comments_arr s)[i := f (comments_arr s ! i)]\<rparr>"

text \<open>\<^verbatim>\<open>root.user\<close>: the first user whose id \<^verbatim>\<open>==\<close> the argument, with the avatar function
  assigned to it, or \<^verbatim>\<open>undefined\<close>.\<close>

definition user :: "to_number \<Rightarrow> js_id \<Rightarrow> store \<Rightarrow> nat option \<times> store" where
  "user tn qid s =
     (case find_ref (\<lambda>u. loose_eq tn (u_id u) qid) (users_arr s) of
        None \<Rightarrow> (None, s)
      | Some i \<Rightarrow> (Some i, set_user i (\<lambda>u. u\<lparr>u_avatar := Some AvatarFn\<rparr>) s))"

text \<open>\<^verbatim>\<open>root.users\<close>: the callback of \<^verbatim>\<open>map\<close> runs on every user in turn.\<close>

definition users_cb :: "nat \<Rightarrow> store \<Rightarrow> store" where
  "users_cb i s = set_user i (\<lambda>u. u\<lparr>u_avatar := Some AvatarFn\<rparr>) s"

definition users :: "store \<Rightarrow> nat list \<times> store" where
  "users s = (let refs = [0..<length (users_arr s)] in (refs, fold users_cb refs s))"

text \<open>\<^verbatim>\<open>root.post\<close>: the image is assigned whatever the post held.\<close>

definition post :: "to_number \<Rightarrow> js_id \<Rightarrow> store \<Rightarrow> nat option \<times> store" where
  "post tn qid s =
     (case find_ref (\<lambda>p. loose_eq tn (p_id p) qid) (posts_arr s) of
        None \<Rightarrow> (None, s)
      | Some i \<Rightarrow>
          (Some i,
           set_post i (\<lambda>p. p\<lparr>p_image := ImgStr fallback_image,
                              p_author := Some (UserOfPost (Some i)),
                              p_comments := Some (CommentsOfArg qid)\<rparr>) s))"

text \<open>\<^verbatim>\<open>post.image || '...'\<close>: \<^verbatim>\<open>undefined\<close>, \<^verbatim>\<open>null\<close> and the empty string are falsy.\<close>

definition image_or_fallback :: "js_image \<Rightarrow> js_image" where
  "image_or_fallback v =
     (case v of
        ImgUndefined \<Rightarrow> ImgStr fallback_image
      | ImgNull \<Rightarrow> ImgStr fallback_image
      | ImgStr t \<Rightarrow> if t = [] then ImgStr fallback_image else ImgStr t)"

definition posts_cb :: "nat \<Rightarrow> store \<Rightarrow> store" where
  "posts_cb i s =
     set_post i (\<lambda>p. p\<lparr>p_image := image_or_fallback (p_image p),
                        p_author := Some (UserOfPost (Some i)),
                        p_comments := Some (CommentsOfPost i)\<rparr>) s"

definition posts :: "store \<Rightarrow> nat list \<times> store" where
  "posts s = (let refs = [0..<length (posts_arr s)] in (refs, fold posts_cb refs s))"

text \<open>\<^verbatim>\<open>root.comments\<close>: \<^verbatim>\<open>filter\<close> selects the comments of the post, then the callback of
  \<^verbatim>\<open>map\<close> runs on each of them in turn and calls \<^verbatim>\<open>root.post\<close> every time.\<close>

definition comments_cb :: "to_number \<Rightarrow> js_id \<Rightarrow> nat \<Rightarrow> store \<Rightarrow> store" where
  "comments_cb tn postId c s =
     (let (p, s1) = post tn postId s
      in set_comment c (\<lambda>x. x\<lparr>c_post := Some (ConstPost p),
                               c_author := Some (UserOfPost p)\<rparr>) s1)"

definition comments :: "to_number \<Rightarrow> js_id \<Rightarrow> store \<Rightarrow> nat list \<times> store" where
  "comments tn postId s =
     (let refs = filter (\<lambda>i. loose_eq tn (c_postId (comments_arr s ! i)) postId)
                   [0..<length (comments_arr s)]
      in (refs, fold (comments_cb tn postId) refs s))"

text \<open>\<^verbatim>\<open>root.addComment\<close> and \<^verbatim>\<open>root.addPost\<close>. The text of \<^verbatim>\<open>new Date()\<close> is the
  argument \<open>now\<close>. The second variant of the server also sends the new post to the
  websocket clients before it returns; its resolvers are the same otherwise.\<close>

definition addComment :: "to_number \<Rightarrow> CommentInput \<Rightarrow> string \<Rightarrow> store \<Rightarrow> nat option \<times> store" where
  "addComment tn comment now s =
     (let newComment = \<lparr>c_id = IdNum (int (length (comments_arr s)) + 1),
                         c_text = ci_text comment,
                         c_authorId = ci_authorId comment,
                         c_createdAt = now,
                         c_postId = ci_postId comment,
                         c_post = None,
                         c_author = None\<rparr>;
          s1 = s\<lparr>comments_arr := comments_arr s @ [newComment]\<rparr>;
          (refs, s2) = comments tn (ci_postId comment) s1
      in (find (\<lambda>c. loose_eq tn (c_id (comments_arr s2 ! c)) (c_id newComment)) refs, s2))"

definition addPost :: "to_number \<Rightarrow> PostInput \<Rightarrow> string \<Rightarrow> store \<Rightarrow> nat option \<times> store" where
  "addPost tn inp now s =
     (let newPost = \<lparr>p_id = IdNum (int (length (posts_arr s)) + 1),
                      p_title = pi_title inp,
                      p_text = pi_text inp,
                      p_authorId = pi_authorId inp,
                      p_image = pi_image inp,
                      p_createdAt = now,
                      p_author = None,
                      p_comments = None\<rparr>;
          s1 = s\<lparr>posts_arr := posts_arr s @ [newPost]\<rparr>
      in post tn (p_id newPost) s1)"

subsection \<open>Resolving a field that holds a function\<close>

text \<open>
  The execution engine calls a property that is a function. Reading \<^verbatim>\<open>post.authorId\<close>
  while \<^verbatim>\<open>post\<close> is \<^verbatim>\<open>undefined\<close> throws a TypeError. The schema gives \<^verbatim>\<open>size\<close> the
  default \<^verbatim>\<open>S_128\<close>.
\<close>

fun call_author_fn :: "to_number \<Rightarrow> author_fn \<Rightarrow> store \<Rightarrow> js_error + (nat option \<times> store)" where
  "call_author_fn tn (UserOfPost None) s = Inl TypeError"
| "call_author_fn tn (UserOfPost (Some p)) s = Inr (user tn (p_authorId (posts_arr s ! p)) s)"

fun call_comments_fn :: "to_number \<Rightarrow> comments_fn \<Rightarrow> store \<Rightarrow> nat list \<times> store" where
  "call_comments_fn tn (CommentsOfArg q) s = comments tn q s"
| "call_comments_fn tn (CommentsOfPost p) s = comments tn (p_id (posts_arr s ! p)) s"

definition resolve_avatar :: "nat \<Rightarrow> AvatarSizes option \<Rightarrow> store \<Rightarrow> string option" where
  "resolve_avatar u arg s =
     (case u_avatar (users_arr s ! u) of
        None \<Rightarrow> None
      | Some AvatarFn \<Rightarrow> Some (avatar (case arg of None \<Rightarrow> S_128 | Some z \<Rightarrow> z)))"

definition resolve_post_author :: "to_number \<Rightarrow> nat \<Rightarrow> store \<Rightarrow> js_error + (nat option \<times> store)" where
  "resolve_post_author tn p s =
     (case p_author (posts_arr s ! p) of
        None \<Rightarrow> Inr (None, s)
      | Some f \<Rightarrow> call_author_fn tn f s)"

definition resolve_post_comments :: "to_number \<Rightarrow> nat \<Rightarrow> store \<Rightarrow> nat list option \<times> store" where
  "resolve_post_comments tn p s =
     (case p_comments (posts_arr s ! p) of
        None \<Rightarrow> (None, s)
      | Some f \<Rightarrow> (let (refs, s1) = call_comments_fn tn f s in (Some refs, s1)))"

definition resolve_comment_post :: "nat \<Rightarrow> store \<Rightarrow> nat option" where
  "resolve_comment_post c s =
     (case c_post (comments_arr s ! c) of
        None \<Rightarrow> None
      | Some (ConstPost r) \<Rightarrow> r)"

definition resolve_comment_author :: "to_number \<Rightarrow> nat \<Rightarrow> store \<Rightarrow> js_error + (nat option \<times> store)" where
  "resolve_comment_author tn c s =
     (case c_author (comments_arr s ! c) of
        None \<Rightarrow> Inr (None, s)
      | Some f \<Rightarrow> call_author_fn tn f s)"

text \<open>\<^verbatim>\<open>String.prototype.includes\<close>, for statements about the avatar URL.\<close>

fun starts_with :: "string \<Rightarrow> string \<Rightarrow> bool" where
  "starts_with s [] = True"
| "starts_with [] (c # cs) = False"
| "starts_with (x # xs) (c # cs) = (x = c \<and> starts_with xs cs)"

fun str_includes :: "string \<Rightarrow> string \<Rightarrow> bool" where
  "str_includes [] t = (t = [])"
| "str_includes (x # xs) t = (starts_with (x # xs) t \<or> str_includes xs t)"

section \<open>What the store persists\<close>

text \<open>
  The data of an entity, as opposed to the functions attached to it. The image of a post
  is kept apart: it is the one data field that a resolver assigns.
\<close>

definition user_data :: "user_obj \<Rightarrow> js_id \<times> string \<times> string" where
  "user_data u = (u_id u, u_name u, u_email u)"

definition post_data :: "post_obj \<Rightarrow> js_id \<times> string \<times> string \<times> js_id \<times> string" where
  "post_data p = (p_id p, p_title p, p_text p, p_authorId p, p_createdAt p)"

definition comment_data :: "comment_obj \<Rightarrow> js_id \<times> string \<times> js_id \<times> string \<times> js_id" where
  "comment_data c = (c_id c, c_text c, c_authorId c, c_createdAt c, c_postId c)"

text \<open>A store \<open>s'\<close> holds the same entities, in the same order and with the same data, as \<open>s\<close>.\<close>

definition data_kept :: "store \<Rightarrow> store \<Rightarrow> bool" where
  "data_kept s s' =
     (map user_data (users_arr s') = map user_data (users_arr s) \<and>
      map post_data (posts_arr s') = map post_data (posts_arr s) \<and>
      map comment_data (comments_arr s') = map comment_data (comments_arr s))"

section \<open>Sample stores\<close>

text \<open>
  \<open>seed_store\<close> is the scenario of the specification: one user, one post by that user,
  no comment. \<open>blog_store\<close> has a second user and post, a comment on post 1 written by
  user 2, and a comment whose post does not exist. \<open>cat_post\<close> and \<open>hi_comment\<close> are
  inputs of the two mutations.
\<close>

definition seed_store :: store where
  "seed_store =
     \<lparr>users_arr = [\<lparr>u_id = IdNum 1, u_name = ''Ann'', u_email = ''ann@example.com'', u_avatar = None\<rparr>],
      posts_arr = [\<lparr>p_id = IdNum 1, p_title = ''First'', p_text = ''Hello'', p_authorId = IdNum 1,
                     p_image = ImgUndefined, p_createdAt = ''2020-01-01'', p_author = None,
                     p_comments = None\<rparr>],
      comments_arr = []\<rparr>"

definition blog_store :: store where
  "blog_store =
     \<lparr>users_arr = [\<lparr>u_id = IdNum 1, u_name = ''Ann'', u_email = ''ann@example.com'', u_avatar = None\<rparr>,
                   \<lparr>u_id = IdNum 2, u_name = ''Bob'', u_email = ''bob@example.com'', u_avatar = None\<rparr>],
      posts_arr = [\<lparr>p_id = IdNum 1, p_title = ''First'', p_text = ''Hello'', p_authorId = IdNum 1,
                     p_image = ImgUndefined, p_createdAt = ''2020-01-01'', p_author = None,
                     p_comments = None\<rparr>,
                   \<lparr>p_id = IdNum 2, p_title = ''Second'', p_text = ''Again'', p_authorId = IdNum 2,
                     p_image = ImgStr ''https://example.com/b.png'', p_createdAt = ''2020-01-02'',
                     p_author = None, p_comments = None\<rparr>],
      comments_arr = [\<lparr>c_id = IdNum 1, c_text = ''Nice'', c_authorId = IdNum 2,
                        c_createdAt = ''2020-01-03'', c_postId = IdNum 1, c_post = None,
                        c_author = None\<rparr>,
                      \<lparr>c_id = IdNum 2, c_text = ''Lost'', c_authorId = IdNum 1,
                        c_createdAt = ''2020-01-04'', c_postId = IdNum 9, c_post = None,
                        c_author = None\<rparr>]\<rparr>"

definition cat_post :: PostInput where
  "cat_post = \<lparr>pi_authorId = IdStr ''1'', pi_title = ''Cat'', pi_text = ''Meow'',
                pi_image = ImgStr ''https://example.com/cat.png''\<rparr>"

definition hi_comment :: CommentInput where
  "hi_comment = \<lparr>ci_authorId = IdNum 1, ci_postId = IdNum 1, ci_text = ''hi''\<rparr>"

section \<open>Auxiliary facts\<close>

lemma loose_eq_refl: "loose_eq tn x x"
  by (cases x) simp_all

lemma find_ref_None_iff: "find_ref P xs = None \<longleftrightarrow> (\<forall>x \<in> set xs. \<not> P x)"
  by (induction xs) auto

lemma find_ref_Some:
  "find_ref P xs = Some i \<Longrightarrow> i < length xs \<and> P (xs ! i) \<and> (\<forall>j < i. \<not> P (xs ! j))"
proof (induction xs arbitrary: i)
  case Nil
  then show ?case by simp
next
  case (Cons x xs)
  show ?case
  proof (cases "P x")
    case True
    with Cons.prems show ?thesis by simp
  next
    case False
    with Cons.prems obtain k where k: "find_ref P xs = Some k" "i = Suc k"
      by auto
    from Cons.IH [OF k(1)] have ih: "k < length xs" "P (xs ! k)" "\<forall>j < k. \<not> P (xs ! j)"
      by simp_all
    have "\<not> P ((x # xs) ! j)" if "j < Suc k" for j
      using that False ih(3) by (cases j) simp_all
    with ih k show ?thesis by simp
  qed
qed

lemma find_ref_first:
  "i < length xs \<Longrightarrow> P (xs ! i) \<Longrightarrow> \<forall>j < i. \<not> P (xs ! j) \<Longrightarrow> find_ref P xs = Some i"
proof (induction xs arbitrary: i)
  case Nil
  then show ?case by simp
next
  case (Cons x xs)
  show ?case
  proof (cases i)
    case 0
    with Cons.prems show ?thesis by simp
  next
    case (Suc k)
    from Cons.prems Suc have "\<not> P x" by fastforce
    moreover have "find_ref P xs = Some k"
    proof (rule Cons.IH)
      show "k < length xs" using Cons.prems Suc by simp
      show "P (xs ! k)" using Cons.prems Suc by simp
      show "\<forall>j < k. \<not> P (xs ! j)"
      proof (intro allI impI)
        fix j assume "j < k"
        then have "Suc j < i" using Suc by simp
        with Cons.prems(3) have "\<not> P ((x # xs) ! Suc j)" by blast
        then show "\<not> P (xs ! j)" by simp
      qed
    qed
    ultimately show ?thesis using Suc by simp
  qed
qed

lemma find_ref_map: "find_ref (\<lambda>x. Q (k x)) xs = find_ref Q (map k xs)"
  by (induction xs) simp_all

lemma map_update_keep:
  "(\<And>x. g (f x) = g x) \<Longrightarrow> map g (xs[i := f (xs ! i)]) = map g xs"
proof (cases "i < length xs")
  case True
  assume "\<And>x. g (f x) = g x"
  with True show ?thesis by (simp add: map_update list_update_same_conv)
next
  case False
  then have "length xs \<le> i" by simp
  then show ?thesis by (simp only: list_update_beyond)
qed

lemma map_eq_nth: "map g xs = map g ys \<Longrightarrow> i < length xs \<Longrightarrow> g (xs ! i) = g (ys ! i)"
  by (metis length_map nth_map)

text \<open>An assignment to a property touches one array and keeps its length.\<close>

lemma set_user_frame:
  "posts_arr (set_user i f s) = posts_arr s" "comments_arr (set_user i f s) = comments_arr s"
  "length (users_arr (set_user i f s)) = length (users_arr s)"
  by (simp_all add: set_user_def)

lemma set_post_frame:
  "users_arr (set_post i f s) = users_arr s" "comments_arr (set_post i f s) = comments_arr s"
  "length (posts_arr (set_post i f s)) = length (posts_arr s)"
  by (simp_all add: set_post_def)

lemma set_comment_frame:
  "users_arr (set_comment i f s) = users_arr s" "posts_arr (set_comment i f s) = posts_arr s"
  "length (comments_arr (set_comment i f s)) = length (comments_arr s)"
  by (simp_all add: set_comment_def)

lemma set_user_data:
  "(\<And>u. user_data (f u) = user_data u) \<Longrightarrow>
   map user_data (users_arr (set_user i f s)) = map user_data (users_arr s)"
  by (simp add: set_user_def map_update_keep)

lemma set_post_data:
  "(\<And>p. post_data (f p) = post_data p) \<Longrightarrow>
   map post_data (posts_arr (set_post i f s)) = map post_data (posts_arr s)"
  by (simp add: set_post_def map_update_keep)

lemma set_comment_data:
  "(\<And>c. comment_data (f c) = comment_data c) \<Longrightarrow>
   map comment_data (comments_arr (set_comment i f s)) = map comment_data (comments_arr s)"
  by (simp add: set_comment_def map_update_keep)

subsection \<open>Lookups by id\<close>

lemma user_frame:
  "posts_arr (snd (user tn q s)) = posts_arr s" "comments_arr (snd (user tn q s)) = comments_arr s"
  "map user_data (users_arr (snd (user tn q s))) = map user_data (users_arr s)"
  by (simp_all add: user_def set_user_frame set_user_data user_data_def split: option.splits)

lemma post_frame:
  "users_arr (snd (post tn q s)) = users_arr s" "comments_arr (snd (post tn q s)) = comments_arr s"
  "map post_data (posts_arr (snd (post tn q s))) = map post_data (posts_arr s)"
  by (simp_all add: post_def set_post_frame set_post_data post_data_def split: option.splits)

lemma post_data_id: "map post_data xs = map post_data ys \<Longrightarrow> map p_id xs = map p_id ys"
proof -
  assume "map post_data xs = map post_data ys"
  then have "map (fst \<circ> post_data) xs = map (fst \<circ> post_data) ys"
    by (metis map_map)
  moreover have "fst \<circ> post_data = p_id" by (auto simp: post_data_def)
  ultimately show ?thesis by simp
qed

lemma post_lookup_cong:
  "map post_data (posts_arr s1) = map post_data (posts_arr s2) \<Longrightarrow> fst (post tn q s1) = fst (post tn q s2)"
proof -
  assume "map post_data (posts_arr s1) = map post_data (posts_arr s2)"
  then have "map p_id (posts_arr s1) = map p_id (posts_arr s2)" by (rule post_data_id)
  then have "find_ref (\<lambda>p. loose_eq tn (p_id p) q) (posts_arr s1) = find_ref (\<lambda>p. loose_eq tn (p_id p) q) (posts_arr s2)"
    by (simp add: find_ref_map [where k = p_id and Q = "\<lambda>i. loose_eq tn i q"])
  then show ?thesis by (simp add: post_def split: option.splits)
qed


lemma user_found:
  "find_ref (\<lambda>u. loose_eq tn (u_id u) q) (users_arr s) = Some i \<Longrightarrow> fst (user tn q s) = Some i"
  by (simp add: user_def)

lemma post_found:
  "find_ref (\<lambda>p. loose_eq tn (p_id p) q) (posts_arr s) = Some i \<Longrightarrow> fst (post tn q s) = Some i"
  by (simp add: post_def)

lemma user_result:
  "fst (user tn q s) = Some i \<Longrightarrow>
   i < length (users_arr s) \<and> loose_eq tn (u_id (users_arr s ! i)) q \<and>
   (\<forall>j < i. \<not> loose_eq tn (u_id (users_arr s ! j)) q)"
proof -
  assume "fst (user tn q s) = Some i"
  then have "find_ref (\<lambda>u. loose_eq tn (u_id u) q) (users_arr s) = Some i"
    by (simp add: user_def split: option.splits)
  from find_ref_Some [OF this] show ?thesis by simp
qed

lemma post_result:
  "fst (post tn q s) = Some i \<Longrightarrow>
   i < length (posts_arr s) \<and> loose_eq tn (p_id (posts_arr s ! i)) q \<and>
   (\<forall>j < i. \<not> loose_eq tn (p_id (posts_arr s ! j)) q)"
proof -
  assume "fst (post tn q s) = Some i"
  then have "find_ref (\<lambda>p. loose_eq tn (p_id p) q) (posts_arr s) = Some i"
    by (simp add: post_def split: option.splits)
  from find_ref_Some [OF this] show ?thesis by simp
qed

lemma user_miss: "\<forall>u \<in> set (users_arr s). \<not> loose_eq tn (u_id u) q \<Longrightarrow> user tn q s = (None, s)"
  by (simp add: user_def find_ref_None_iff [THEN iffD2])

lemma post_miss: "\<forall>p \<in> set (posts_arr s). \<not> loose_eq tn (p_id p) q \<Longrightarrow> post tn q s = (None, s)"
  by (simp add: post_def find_ref_None_iff [THEN iffD2])

lemma user_some_hit:
  "\<exists>u \<in> set (users_arr s). loose_eq tn (u_id u) q \<Longrightarrow>
   \<exists>i < length (users_arr s). fst (user tn q s) = Some i \<and> loose_eq tn (u_id (users_arr s ! i)) q"
proof -
  assume "\<exists>u \<in> set (users_arr s). loose_eq tn (u_id u) q"
  then have "find_ref (\<lambda>u. loose_eq tn (u_id u) q) (users_arr s) \<noteq> None"
    by (simp add: find_ref_None_iff)
  then obtain i where "find_ref (\<lambda>u. loose_eq tn (u_id u) q) (users_arr s) = Some i" by blast
  then have "fst (user tn q s) = Some i" by (rule user_found)
  with user_result [OF this] show ?thesis by blast
qed

lemma post_some_hit:
  "\<exists>p \<in> set (posts_arr s). loose_eq tn (p_id p) q \<Longrightarrow>
   \<exists>i < length (posts_arr s). fst (post tn q s) = Some i \<and> loose_eq tn (p_id (posts_arr s ! i)) q"
proof -
  assume "\<exists>p \<in> set (posts_arr s). loose_eq tn (p_id p) q"
  then have "find_ref (\<lambda>p. loose_eq tn (p_id p) q) (posts_arr s) \<noteq> None"
    by (simp add: find_ref_None_iff)
  then obtain i where "find_ref (\<lambda>p. loose_eq tn (p_id p) q) (posts_arr s) = Some i" by blast
  then have "fst (post tn q s) = Some i" by (rule post_found)
  with post_result [OF this] show ?thesis by blast
qed

lemma user_only_hit:
  assumes "i < length (users_arr s)" "loose_eq tn (u_id (users_arr s ! i)) q"
    and "\<forall>j < length (users_arr s). loose_eq tn (u_id (users_arr s ! j)) q \<longrightarrow> j = i"
  shows "fst (user tn q s) = Some i \<and>
         user_data (users_arr (snd (user tn q s)) ! i) = user_data (users_arr s ! i)"
proof -
  have "\<forall>j < i. \<not> loose_eq tn (u_id (users_arr s ! j)) q"
  proof (intro allI impI)
    fix j
    assume less: "j < i"
    with assms(1) have inside: "j < length (users_arr s)" by simp
    show "\<not> loose_eq tn (u_id (users_arr s ! j)) q"
    proof
      assume "loose_eq tn (u_id (users_arr s ! j)) q"
      with assms(3) inside have "j = i" by blast
      with less show False by simp
    qed
  qed
  with assms(1,2) have "find_ref (\<lambda>u. loose_eq tn (u_id u) q) (users_arr s) = Some i"
    by (intro find_ref_first) simp_all
  then have "fst (user tn q s) = Some i" by (rule user_found)
  moreover have "user_data (users_arr (snd (user tn q s)) ! i) = user_data (users_arr s ! i)"
  proof (rule map_eq_nth [OF user_frame(3)])
    have "length (map user_data (users_arr (snd (user tn q s)))) = length (map user_data (users_arr s))"
      by (simp only: user_frame(3))
    with assms(1) show "i < length (users_arr (snd (user tn q s)))" by simp
  qed
  ultimately show ?thesis by simp
qed

lemma post_only_hit:
  assumes "i < length (posts_arr s)" "loose_eq tn (p_id (posts_arr s ! i)) q"
    and "\<forall>j < length (posts_arr s). loose_eq tn (p_id (posts_arr s ! j)) q \<longrightarrow> j = i"
  shows "fst (post tn q s) = Some i \<and>
         post_data (posts_arr (snd (post tn q s)) ! i) = post_data (posts_arr s ! i)"
proof -
  have "\<forall>j < i. \<not> loose_eq tn (p_id (posts_arr s ! j)) q"
  proof (intro allI impI)
    fix j
    assume less: "j < i"
    with assms(1) have inside: "j < length (posts_arr s)" by simp
    show "\<not> loose_eq tn (p_id (posts_arr s ! j)) q"
    proof
      assume "loose_eq tn (p_id (posts_arr s ! j)) q"
      with assms(3) inside have "j = i" by blast
      with less show False by simp
    qed
  qed
  with assms(1,2) have "find_ref (\<lambda>p. loose_eq tn (p_id p) q) (posts_arr s) = Some i"
    by (intro find_ref_first) simp_all
  then have "fst (post tn q s) = Some i" by (rule post_found)
  moreover have "post_data (posts_arr (snd (post tn q s)) ! i) = post_data (posts_arr s ! i)"
  proof (rule map_eq_nth [OF post_frame(3)])
    have "length (map post_data (posts_arr (snd (post tn q s)))) = length (map post_data (posts_arr s))"
      by (simp only: post_frame(3))
    with assms(1) show "i < length (posts_arr (snd (post tn q s)))" by simp
  qed
  ultimately show ?thesis by simp
qed

lemma user_state:
  "fst (user tn q s) = Some u \<Longrightarrow> snd (user tn q s) = set_user u (\<lambda>x. x\<lparr>u_avatar := Some AvatarFn\<rparr>) s"
  by (simp add: user_def split: option.splits)

lemma post_state:
  "fst (post tn q s) = Some i \<Longrightarrow>
   snd (post tn q s) =
     set_post i (\<lambda>p. p\<lparr>p_image := ImgStr fallback_image, p_author := Some (UserOfPost (Some i)),
                        p_comments := Some (CommentsOfArg q)\<rparr>) s"
  by (simp add: post_def split: option.splits)

subsection \<open>The callback of \<^verbatim>\<open>users\<close>\<close>

lemma users_cb_frame:
  "posts_arr (users_cb i s) = posts_arr s" "comments_arr (users_cb i s) = comments_arr s"
  "map user_data (users_arr (users_cb i s)) = map user_data (users_arr s)"
  "length (users_arr (users_cb i s)) = length (users_arr s)"
  by (simp_all add: users_cb_def set_user_frame set_user_data user_data_def)

lemma fold_users_cb_frame:
  "posts_arr (fold users_cb refs s) = posts_arr s \<and>
   comments_arr (fold users_cb refs s) = comments_arr s \<and>
   map user_data (users_arr (fold users_cb refs s)) = map user_data (users_arr s) \<and>
   length (users_arr (fold users_cb refs s)) = length (users_arr s)"
  by (induction refs arbitrary: s) (simp_all add: users_cb_frame)

lemma users_cb_avatar_kept:
  "i < length (users_arr s) \<Longrightarrow> u_avatar (users_arr s ! i) = Some AvatarFn \<Longrightarrow>
   u_avatar (users_arr (users_cb r s) ! i) = Some AvatarFn"
  by (cases "i = r") (simp_all add: users_cb_def set_user_def)

lemma fold_users_cb_avatar_kept:
  "i < length (users_arr s) \<Longrightarrow> u_avatar (users_arr s ! i) = Some AvatarFn \<Longrightarrow>
   u_avatar (users_arr (fold users_cb refs s) ! i) = Some AvatarFn"
  by (induction refs arbitrary: s) (simp_all add: users_cb_frame users_cb_avatar_kept)

lemma users_cb_avatar_set:
  "i < length (users_arr s) \<Longrightarrow> u_avatar (users_arr (users_cb i s) ! i) = Some AvatarFn"
  by (simp add: users_cb_def set_user_def)

lemma fold_users_cb_avatar:
  "i \<in> set refs \<Longrightarrow> i < length (users_arr s) \<Longrightarrow>
   u_avatar (users_arr (fold users_cb refs s) ! i) = Some AvatarFn"
proof (induction refs arbitrary: s)
  case Nil
  then show ?case by simp
next
  case (Cons r rs)
  show ?case
  proof (cases "i = r")
    case True
    with Cons.prems show ?thesis
      by (simp add: fold_users_cb_avatar_kept users_cb_frame users_cb_avatar_set)
  next
    case False
    with Cons.prems have "i \<in> set rs" by simp
    with Cons.IH [of "users_cb r s"] Cons.prems show ?thesis
      by (simp add: users_cb_frame)
  qed
qed

lemma users_frame:
  "posts_arr (snd (users s)) = posts_arr s \<and>
   comments_arr (snd (users s)) = comments_arr s \<and>
   map user_data (users_arr (snd (users s))) = map user_data (users_arr s) \<and>
   length (users_arr (snd (users s))) = length (users_arr s)"
  by (simp add: users_def Let_def fold_users_cb_frame)

subsection \<open>The callback of \<^verbatim>\<open>posts\<close>\<close>

lemma image_or_fallback_idem: "image_or_fallback (image_or_fallback v) = image_or_fallback v"
  by (simp add: image_or_fallback_def fallback_image_def split: js_image.splits)

lemma posts_cb_frame:
  "users_arr (posts_cb i s) = users_arr s" "comments_arr (posts_cb i s) = comments_arr s"
  "map post_data (posts_arr (posts_cb i s)) = map post_data (posts_arr s)"
  "length (posts_arr (posts_cb i s)) = length (posts_arr s)"
  by (simp_all add: posts_cb_def set_post_frame set_post_data post_data_def)

lemma fold_posts_cb_frame:
  "users_arr (fold posts_cb refs s) = users_arr s \<and>
   comments_arr (fold posts_cb refs s) = comments_arr s \<and>
   map post_data (posts_arr (fold posts_cb refs s)) = map post_data (posts_arr s) \<and>
   length (posts_arr (fold posts_cb refs s)) = length (posts_arr s)"
  by (induction refs arbitrary: s) (simp_all add: posts_cb_frame)

lemma posts_cb_image:
  "i < length (posts_arr s) \<Longrightarrow>
   p_image (posts_arr (posts_cb r s) ! i) =
     (if i = r then image_or_fallback (p_image (posts_arr s ! i)) else p_image (posts_arr s ! i))"
  by (simp add: posts_cb_def set_post_def nth_list_update)

lemma fold_posts_cb_image:
  "i < length (posts_arr s) \<Longrightarrow>
   p_image (posts_arr (fold posts_cb refs s) ! i) =
     (if i \<in> set refs then image_or_fallback (p_image (posts_arr s ! i))
      else p_image (posts_arr s ! i))"
proof (induction refs arbitrary: s)
  case Nil
  then show ?case by simp
next
  case (Cons r rs)
  have len: "i < length (posts_arr (posts_cb r s))"
    using Cons.prems by (simp add: posts_cb_frame)
  show ?case
    using Cons.IH [OF len] Cons.prems
    by (simp add: posts_cb_image image_or_fallback_idem)
qed

lemma posts_image:
  assumes "i < length (posts_arr s)"
  shows "p_image (posts_arr (snd (posts s)) ! i) = image_or_fallback (p_image (posts_arr s ! i))"
proof -
  have "p_image (posts_arr (fold posts_cb [0..<length (posts_arr s)] s) ! i) =
      (if i \<in> set [0..<length (posts_arr s)] then image_or_fallback (p_image (posts_arr s ! i))
       else p_image (posts_arr s ! i))"
    by (rule fold_posts_cb_image [OF assms])
  with assms show ?thesis by (simp add: posts_def Let_def)
qed

lemma posts_frame:
  "users_arr (snd (posts s)) = users_arr s \<and>
   comments_arr (snd (posts s)) = comments_arr s \<and>
   map post_data (posts_arr (snd (posts s))) = map post_data (posts_arr s) \<and>
   length (posts_arr (snd (posts s))) = length (posts_arr s)"
  by (simp add: posts_def Let_def fold_posts_cb_frame)

subsection \<open>The callback of \<^verbatim>\<open>comments\<close>\<close>

lemma comments_cb_eq:
  "comments_cb tn q c s =
     set_comment c (\<lambda>x. x\<lparr>c_post := Some (ConstPost (fst (post tn q s))),
                            c_author := Some (UserOfPost (fst (post tn q s)))\<rparr>) (snd (post tn q s))"
  by (simp add: comments_cb_def split: prod.splits)

lemma comments_cb_frame:
  "users_arr (comments_cb tn q c s) = users_arr s"
  "map post_data (posts_arr (comments_cb tn q c s)) = map post_data (posts_arr s)"
  "map comment_data (comments_arr (comments_cb tn q c s)) = map comment_data (comments_arr s)"
  "length (comments_arr (comments_cb tn q c s)) = length (comments_arr s)"
  by (simp_all add: comments_cb_eq set_comment_frame set_comment_data post_frame comment_data_def)

lemma fold_comments_cb_frame:
  "users_arr (fold (comments_cb tn q) refs s) = users_arr s \<and>
   map post_data (posts_arr (fold (comments_cb tn q) refs s)) = map post_data (posts_arr s) \<and>
   map comment_data (comments_arr (fold (comments_cb tn q) refs s)) = map comment_data (comments_arr s) \<and>
   length (comments_arr (fold (comments_cb tn q) refs s)) = length (comments_arr s)"
  by (induction refs arbitrary: s) (simp_all add: comments_cb_frame)

lemma comments_cb_other:
  "c \<noteq> r \<Longrightarrow> comments_arr (comments_cb tn q r s) ! c = comments_arr s ! c"
  by (simp add: comments_cb_eq set_comment_def post_frame)

lemma fold_comments_cb_untouched:
  "c \<notin> set refs \<Longrightarrow> comments_arr (fold (comments_cb tn q) refs s) ! c = comments_arr s ! c"
  by (induction refs arbitrary: s) (simp_all add: comments_cb_other)

lemma comments_cb_author:
  "c < length (comments_arr s) \<Longrightarrow>
   c_author (comments_arr (comments_cb tn q c s) ! c) = Some (UserOfPost (fst (post tn q s)))"
  by (simp add: comments_cb_eq set_comment_def post_frame)

lemma fold_comments_cb_author:
  "c \<in> set refs \<Longrightarrow> c < length (comments_arr s) \<Longrightarrow>
   c_author (comments_arr (fold (comments_cb tn q) refs s) ! c) = Some (UserOfPost (fst (post tn q s)))"
proof (induction refs arbitrary: s)
  case Nil
  then show ?case by simp
next
  case (Cons r rs)
  let ?s1 = "comments_cb tn q r s"
  have same: "fst (post tn q ?s1) = fst (post tn q s)"
    by (rule post_lookup_cong) (simp add: comments_cb_frame)
  show ?case
  proof (cases "c \<in> set rs")
    case True
    have "c < length (comments_arr ?s1)"
      using Cons.prems by (simp add: comments_cb_frame)
    from Cons.IH [OF True this] same show ?thesis by simp
  next
    case False
    with Cons.prems have "c = r" by simp
    with False Cons.prems show ?thesis
      by (simp add: fold_comments_cb_untouched comments_cb_author)
  qed
qed

lemma comments_cb_post:
  "c < length (comments_arr s) \<Longrightarrow>
   c_post (comments_arr (comments_cb tn q c s) ! c) = Some (ConstPost (fst (post tn q s)))"
  by (simp add: comments_cb_eq set_comment_def post_frame)

lemma fold_comments_cb_post:
  "c \<in> set refs \<Longrightarrow> c < length (comments_arr s) \<Longrightarrow>
   c_post (comments_arr (fold (comments_cb tn q) refs s) ! c) = Some (ConstPost (fst (post tn q s)))"
proof (induction refs arbitrary: s)
  case Nil
  then show ?case by simp
next
  case (Cons r rs)
  let ?s1 = "comments_cb tn q r s"
  have same: "fst (post tn q ?s1) = fst (post tn q s)"
    by (rule post_lookup_cong) (simp add: comments_cb_frame)
  show ?case
  proof (cases "c \<in> set rs")
    case True
    have "c < length (comments_arr ?s1)"
      using Cons.prems by (simp add: comments_cb_frame)
    from Cons.IH [OF True this] same show ?thesis by simp
  next
    case False
    with Cons.prems have "c = r" by simp
    with False Cons.prems show ?thesis
      by (simp add: fold_comments_cb_untouched comments_cb_post)
  qed
qed

lemma comments_refs:
  "fst (comments tn q s) =
     filter (\<lambda>i. loose_eq tn (c_postId (comments_arr s ! i)) q) [0..<length (comments_arr s)]"
  by (simp add: comments_def Let_def)

lemma comments_frame:
  "users_arr (snd (comments tn q s)) = users_arr s \<and>
   map post_data (posts_arr (snd (comments tn q s))) = map post_data (posts_arr s) \<and>
   map comment_data (comments_arr (snd (comments tn q s))) = map comment_data (comments_arr s) \<and>
   length (comments_arr (snd (comments tn q s))) = length (comments_arr s)"
  by (simp add: comments_def Let_def fold_comments_cb_frame)

lemma comments_refs_cong:
  assumes "map comment_data (comments_arr a) = map comment_data (comments_arr b)"
  shows "fst (comments tn q a) = fst (comments tn q b)"
proof -
  from assms have "length (map comment_data (comments_arr a)) = length (map comment_data (comments_arr b))"
    by simp
  then have len: "length (comments_arr a) = length (comments_arr b)" by simp
  have same: "c_postId (comments_arr a ! i) = c_postId (comments_arr b ! i)"
    if "i < length (comments_arr a)" for i
  proof -
    from map_eq_nth [OF assms that]
    have "comment_data (comments_arr a ! i) = comment_data (comments_arr b ! i)" .
    then show ?thesis by (simp add: comment_data_def)
  qed
  have "filter (\<lambda>i. loose_eq tn (c_postId (comments_arr a ! i)) q) [0..<length (comments_arr a)] =
        filter (\<lambda>i. loose_eq tn (c_postId (comments_arr b ! i)) q) [0..<length (comments_arr a)]"
    by (rule filter_cong) (simp_all add: same)
  with len show ?thesis by (simp add: comments_refs)
qed

subsection \<open>Unfolding the resolvers on a concrete store\<close>

lemmas eval_defs = user_def users_def users_cb_def post_def posts_def posts_cb_def comments_def
  comments_cb_def addPost_def addComment_def set_user_def set_post_def set_comment_def
  resolve_avatar_def resolve_comment_author_def resolve_comment_post_def image_or_fallback_def

section \<open>The claims\<close>

text \<open>
  Claim C1. \<^verbatim>\<open>addPost\<close> followed by \<^verbatim>\<open>post(newId)\<close> should return the input's fields,
  the image among them, and the store should hold one post more. On the seeded store,
  adding a post with the image \<^verbatim>\<open>https://example.com/cat.png\<close> returns the new post
  (reference 1) with the input's title, text and author, the id 2 and the creation time,
  and the store holds one post more; but the image of the returned, stored post is the
  fixed fallback URL: \<^verbatim>\<open>root.post\<close> assigns it over what \<^verbatim>\<open>addPost\<close> stored.
\<close>

theorem addPost_discards_image:
  "fst (addPost tn cat_post ''now'' seed_store) = Some 1 \<and>
   length (posts_arr (snd (addPost tn cat_post ''now'' seed_store))) = length (posts_arr seed_store) + 1 \<and>
   post_data (posts_arr (snd (addPost tn cat_post ''now'' seed_store)) ! 1) =
     (IdNum 2, pi_title cat_post, pi_text cat_post, pi_authorId cat_post, ''now'') \<and>
   pi_image cat_post = ImgStr ''https://example.com/cat.png'' \<and>
   p_image (posts_arr (snd (addPost tn cat_post ''now'' seed_store)) ! 1) = ImgStr ''https://picsum.photos/600/400''"
  by (simp add: eval_defs seed_store_def cat_post_def fallback_image_def post_data_def)

text \<open>
  Claim C2. A lookup by an id that \<^verbatim>\<open>==\<close> the id of exactly one stored user (post)
  returns that entity, with its data as stored; whenever some stored entity matches,
  the lookup returns a stored entity whose id matches; and when none matches it returns
  \<^verbatim>\<open>undefined\<close> (null in the response) and leaves the store as it was. The resolvers
  \<open>user\<close> and \<open>post\<close> have no failing branch: their result is a reference or nothing.
  This holds for every reading \<open>tn\<close> of strings as numbers, hence for the runtime's.
\<close>

theorem lookup_by_id:
  "(\<forall>i < length (users_arr s).
      loose_eq tn (u_id (users_arr s ! i)) qid \<and>
      (\<forall>j < length (users_arr s). loose_eq tn (u_id (users_arr s ! j)) qid \<longrightarrow> j = i) \<longrightarrow>
      fst (user tn qid s) = Some i \<and>
      user_data (users_arr (snd (user tn qid s)) ! i) = user_data (users_arr s ! i)) \<and>
   ((\<exists>u \<in> set (users_arr s). loose_eq tn (u_id u) qid) \<longrightarrow>
      (\<exists>i < length (users_arr s).
         fst (user tn qid s) = Some i \<and> loose_eq tn (u_id (users_arr s ! i)) qid)) \<and>
   ((\<forall>u \<in> set (users_arr s). \<not> loose_eq tn (u_id u) qid) \<longrightarrow> user tn qid s = (None, s)) \<and>
   (\<forall>i < length (posts_arr s).
      loose_eq tn (p_id (posts_arr s ! i)) qid \<and>
      (\<forall>j < length (posts_arr s). loose_eq tn (p_id (posts_arr s ! j)) qid \<longrightarrow> j = i) \<longrightarrow>
      fst (post tn qid s) = Some i \<and>
      post_data (posts_arr (snd (post tn qid s)) ! i) = post_data (posts_arr s ! i)) \<and>
   ((\<exists>p \<in> set (posts_arr s). loose_eq tn (p_id p) qid) \<longrightarrow>
      (\<exists>i < length (posts_arr s).
         fst (post tn qid s) = Some i \<and> loose_eq tn (p_id (posts_arr s ! i)) qid)) \<and>
   ((\<forall>p \<in> set (posts_arr s). \<not> loose_eq tn (p_id p) qid) \<longrightarrow> post tn qid s = (None, s))"
proof -
  have u1: "\<forall>i < length (users_arr s).
      loose_eq tn (u_id (users_arr s ! i)) qid \<and>
      (\<forall>j < length (users_arr s). loose_eq tn (u_id (users_arr s ! j)) qid \<longrightarrow> j = i) \<longrightarrow>
      fst (user tn qid s) = Some i \<and>
      user_data (users_arr (snd (user tn qid s)) ! i) = user_data (users_arr s ! i)"
  proof (intro allI impI)
    fix i
    assume a: "i < length (users_arr s)"
      and b: "loose_eq tn (u_id (users_arr s ! i)) qid \<and>
        (\<forall>j < length (users_arr s). loose_eq tn (u_id (users_arr s ! j)) qid \<longrightarrow> j = i)"
    show "fst (user tn qid s) = Some i \<and>
        user_data (users_arr (snd (user tn qid s)) ! i) = user_data (users_arr s ! i)"
      by (rule user_only_hit [OF a b [THEN conjunct1] b [THEN conjunct2]])
  qed
  have u2: "(\<exists>u \<in> set (users_arr s). loose_eq tn (u_id u) qid) \<longrightarrow>
      (\<exists>i < length (users_arr s).
         fst (user tn qid s) = Some i \<and> loose_eq tn (u_id (users_arr s ! i)) qid)"
    by (rule impI) (rule user_some_hit)
  have u3: "(\<forall>u \<in> set (users_arr s). \<not> loose_eq tn (u_id u) qid) \<longrightarrow> user tn qid s = (None, s)"
    by (rule impI) (rule user_miss)
  have p1: "\<forall>i < length (posts_arr s).
      loose_eq tn (p_id (posts_arr s ! i)) qid \<and>
      (\<forall>j < length (posts_arr s). loose_eq tn (p_id (posts_arr s ! j)) qid \<longrightarrow> j = i) \<longrightarrow>
      fst (post tn qid s) = Some i \<and>
      post_data (posts_arr (snd (post tn qid s)) ! i) = post_data (posts_arr s ! i)"
  proof (intro allI impI)
    fix i
    assume a: "i < length (posts_arr s)"
      and b: "loose_eq tn (p_id (posts_arr s ! i)) qid \<and>
        (\<forall>j < length (posts_arr s). loose_eq tn (p_id (posts_arr s ! j)) qid \<longrightarrow> j = i)"
    show "fst (post tn qid s) = Some i \<and>
        post_data (posts_arr (snd (post tn qid s)) ! i) = post_data (posts_arr s ! i)"
      by (rule post_only_hit [OF a b [THEN conjunct1] b [THEN conjunct2]])
  qed
  have p2: "(\<exists>p \<in> set (posts_arr s). loose_eq tn (p_id p) qid) \<longrightarrow>
      (\<exists>i < length (posts_arr s).
         fst (post tn qid s) = Some i \<and> loose_eq tn (p_id (posts_arr s ! i)) qid)"
    by (rule impI) (rule post_some_hit)
  have p3: "(\<forall>p \<in> set (posts_arr s). \<not> loose_eq tn (p_id p) qid) \<longrightarrow> post tn qid s = (None, s)"
    by (rule impI) (rule post_miss)
  from u1 u2 u3 p1 p2 p3 show ?thesis by (intro conjI)
qed

text \<open>On \<open>blog_store\<close>, whatever the reading of strings: the id 2 finds the second user and
  the second post, the id 7 finds nothing.\<close>

theorem lookup_by_id_witness:
  "\<forall>tn.
     fst (user tn (IdNum 2) blog_store) = Some 1 \<and>
     user_data (users_arr (snd (user tn (IdNum 2) blog_store)) ! 1) = (IdNum 2, ''Bob'', ''bob@example.com'') \<and>
     fst (post tn (IdNum 2) blog_store) = Some 1 \<and>
     post_data (posts_arr (snd (post tn (IdNum 2) blog_store)) ! 1) =
       (IdNum 2, ''Second'', ''Again'', IdNum 2, ''2020-01-02'') \<and>
     user tn (IdNum 7) blog_store = (None, blog_store) \<and>
     post tn (IdNum 7) blog_store = (None, blog_store)"
proof
  fix tn :: to_number
  have u: "loose_eq tn (u_id (users_arr blog_store ! 1)) (IdNum 2) \<and>
      (\<forall>j < length (users_arr blog_store).
         loose_eq tn (u_id (users_arr blog_store ! j)) (IdNum 2) \<longrightarrow> j = 1)"
    by (simp add: blog_store_def less_Suc_eq)
  have p: "loose_eq tn (p_id (posts_arr blog_store ! 1)) (IdNum 2) \<and>
      (\<forall>j < length (posts_arr blog_store).
         loose_eq tn (p_id (posts_arr blog_store ! j)) (IdNum 2) \<longrightarrow> j = 1)"
    by (simp add: blog_store_def less_Suc_eq)
  have nu: "\<forall>u \<in> set (users_arr blog_store). \<not> loose_eq tn (u_id u) (IdNum 7)"
    by (simp add: blog_store_def)
  have np: "\<forall>p \<in> set (posts_arr blog_store). \<not> loose_eq tn (p_id p) (IdNum 7)"
    by (simp add: blog_store_def)
  have ud: "user_data (users_arr blog_store ! 1) = (IdNum 2, ''Bob'', ''bob@example.com'')"
    by (simp add: blog_store_def user_data_def)
  have pd: "post_data (posts_arr blog_store ! 1) = (IdNum 2, ''Second'', ''Again'', IdNum 2, ''2020-01-02'')"
    by (simp add: blog_store_def post_data_def)
  have iu: "1 < length (users_arr blog_store)" and ip: "1 < length (posts_arr blog_store)"
    by (simp_all add: blog_store_def)
  note hit = lookup_by_id [where s = blog_store and tn = tn and qid = "IdNum 2"]
  note miss = lookup_by_id [where s = blog_store and tn = tn and qid = "IdNum 7"]
  have a1: "fst (user tn (IdNum 2) blog_store) = Some 1 \<and>
      user_data (users_arr (snd (user tn (IdNum 2) blog_store)) ! 1) = user_data (users_arr blog_store ! 1)"
    by (rule hit [THEN conjunct1, rule_format, OF iu u])
  have a2: "fst (post tn (IdNum 2) blog_store) = Some 1 \<and>
      post_data (posts_arr (snd (post tn (IdNum 2) blog_store)) ! 1) = post_data (posts_arr blog_store ! 1)"
    by (rule hit [THEN conjunct2, THEN conjunct2, THEN conjunct2, THEN conjunct1, rule_format, OF ip p])
  have b1: "user tn (IdNum 7) blog_store = (None, blog_store)"
    by (rule miss [THEN conjunct2, THEN conjunct2, THEN conjunct1, THEN mp, OF nu])
  have b2: "post tn (IdNum 7) blog_store = (None, blog_store)"
    by (rule miss [THEN conjunct2, THEN conjunct2, THEN conjunct2, THEN conjunct2, THEN conjunct2,
          THEN mp, OF np])
  from a1 a2 b1 b2
  show "fst (user tn (IdNum 2) blog_store) = Some 1 \<and>
     user_data (users_arr (snd (user tn (IdNum 2) blog_store)) ! 1) = (IdNum 2, ''Bob'', ''bob@example.com'') \<and>
     fst (post tn (IdNum 2) blog_store) = Some 1 \<and>
     post_data (posts_arr (snd (post tn (IdNum 2) blog_store)) ! 1) =
       (IdNum 2, ''Second'', ''Again'', IdNum 2, ''2020-01-02'') \<and>
     user tn (IdNum 7) blog_store = (None, blog_store) \<and>
     post tn (IdNum 7) blog_store = (None, blog_store)"
    by (simp only: ud pd simp_thms)
qed

text \<open>
  Claim C3, as amended. No query resolver adds, removes or reorders a stored entity, and
  none changes a data field other than the image of a post. \<^verbatim>\<open>user\<close> and \<^verbatim>\<open>users\<close>
  leave every post as it is, image included; \<^verbatim>\<open>posts\<close> keeps a non-empty image and
  stores the fallback URL where the image is absent or empty. The functions a resolver
  attaches are assigned to the stored entity itself, so they are in the store after the
  call: the avatar function after \<^verbatim>\<open>user\<close> and \<^verbatim>\<open>users\<close>, the author and comments
  functions after \<^verbatim>\<open>post\<close>.
\<close>

theorem query_resolvers_keep_data:
  "data_kept s (snd (user tn qid s)) \<and> data_kept s (snd (users s)) \<and>
   data_kept s (snd (post tn qid s)) \<and> data_kept s (snd (posts s)) \<and>
   data_kept s (snd (comments tn qid s)) \<and>
   posts_arr (snd (user tn qid s)) = posts_arr s \<and>
   posts_arr (snd (users s)) = posts_arr s \<and>
   map p_image (posts_arr (snd (posts s))) = map (\<lambda>p. image_or_fallback (p_image p)) (posts_arr s) \<and>
   (fst (user tn qid s) = Some i \<longrightarrow> u_avatar (users_arr (snd (user tn qid s)) ! i) = Some AvatarFn) \<and>
   (i \<in> set (fst (users s)) \<longrightarrow> u_avatar (users_arr (snd (users s)) ! i) = Some AvatarFn) \<and>
   (fst (post tn qid s) = Some i \<longrightarrow>
      p_author (posts_arr (snd (post tn qid s)) ! i) = Some (UserOfPost (Some i)) \<and>
      p_comments (posts_arr (snd (post tn qid s)) ! i) = Some (CommentsOfArg qid))"
proof -
  have k1: "data_kept s (snd (user tn qid s))"
    by (simp add: data_kept_def user_frame)
  have k2: "data_kept s (snd (users s))"
    by (simp add: data_kept_def users_frame)
  have k3: "data_kept s (snd (post tn qid s))"
    by (simp add: data_kept_def post_frame)
  have k4: "data_kept s (snd (posts s))"
    by (simp add: data_kept_def posts_frame)
  have k5: "data_kept s (snd (comments tn qid s))"
    by (simp add: data_kept_def comments_frame)
  have f1: "posts_arr (snd (user tn qid s)) = posts_arr s"
    by (rule user_frame(1))
  have f2: "posts_arr (snd (users s)) = posts_arr s"
    by (simp add: users_frame)
  have img: "map p_image (posts_arr (snd (posts s))) = map (\<lambda>p. image_or_fallback (p_image p)) (posts_arr s)"
  proof (rule nth_equalityI)
    show "length (map p_image (posts_arr (snd (posts s)))) =
        length (map (\<lambda>p. image_or_fallback (p_image p)) (posts_arr s))"
      by (simp add: posts_frame)
  next
    fix i
    assume "i < length (map p_image (posts_arr (snd (posts s))))"
    then have inside: "i < length (posts_arr s)" by (simp add: posts_frame)
    then have "i < length (posts_arr (snd (posts s)))" by (simp add: posts_frame)
    with inside posts_image [OF inside]
    show "map p_image (posts_arr (snd (posts s))) ! i =
        map (\<lambda>p. image_or_fallback (p_image p)) (posts_arr s) ! i"
      by simp
  qed
  have d1: "u_avatar (users_arr (snd (user tn qid s)) ! i) = Some AvatarFn"
    if hit: "fst (user tn qid s) = Some i"
  proof -
    from user_result [OF hit] have "i < length (users_arr s)" by simp
    then show ?thesis by (simp add: user_state [OF hit] set_user_def)
  qed
  have d2: "u_avatar (users_arr (snd (users s)) ! i) = Some AvatarFn"
    if listed: "i \<in> set (fst (users s))"
  proof -
    from listed have mem: "i \<in> set [0..<length (users_arr s)]"
      by (simp add: users_def Let_def)
    then have inside: "i < length (users_arr s)" by simp
    have "u_avatar (users_arr (fold users_cb [0..<length (users_arr s)] s) ! i) = Some AvatarFn"
      by (rule fold_users_cb_avatar [OF mem inside])
    then show ?thesis by (simp add: users_def Let_def)
  qed
  have d3: "p_author (posts_arr (snd (post tn qid s)) ! i) = Some (UserOfPost (Some i)) \<and>
      p_comments (posts_arr (snd (post tn qid s)) ! i) = Some (CommentsOfArg qid)"
    if hit: "fst (post tn qid s) = Some i"
  proof -
    from post_result [OF hit] have "i < length (posts_arr s)" by simp
    then show ?thesis by (simp add: post_state [OF hit] set_post_def)
  qed
  from k1 k2 k3 k4 k5 f1 f2 img d1 d2 d3 show ?thesis by blast
qed

text \<open>On \<open>blog_store\<close>: the decorations appear in the store, \<^verbatim>\<open>posts\<close> fills the absent
  image of the first post and keeps the image of the second.\<close>

theorem query_resolvers_keep_data_witness:
  "\<forall>tn.
     fst (user tn (IdNum 2) blog_store) = Some 1 \<and>
     u_avatar (users_arr blog_store ! 1) = None \<and>
     u_avatar (users_arr (snd (user tn (IdNum 2) blog_store)) ! 1) = Some AvatarFn \<and>
     fst (post tn (IdNum 2) blog_store) = Some 1 \<and>
     p_author (posts_arr blog_store ! 1) = None \<and>
     p_author (posts_arr (snd (post tn (IdNum 2) blog_store)) ! 1) = Some (UserOfPost (Some 1)) \<and>
     map p_image (posts_arr blog_store) = [ImgUndefined, ImgStr ''https://example.com/b.png''] \<and>
     map p_image (posts_arr (snd (posts blog_store))) =
       [ImgStr ''https://picsum.photos/600/400'', ImgStr ''https://example.com/b.png''] \<and>
     map post_data (posts_arr (snd (comments tn (IdNum 1) blog_store))) = map post_data (posts_arr blog_store)"
proof
  fix tn :: to_number
  have hu: "fst (user tn (IdNum 2) blog_store) = Some 1"
    and hp: "fst (post tn (IdNum 2) blog_store) = Some 1"
    by (simp_all add: blog_store_def eval_defs)
  have before: "u_avatar (users_arr blog_store ! 1) = None" "p_author (posts_arr blog_store ! 1) = None"
    "map p_image (posts_arr blog_store) = [ImgUndefined, ImgStr ''https://example.com/b.png'']"
    by (simp_all add: blog_store_def)
  have defaulted: "map (\<lambda>p. image_or_fallback (p_image p)) (posts_arr blog_store) =
      [ImgStr ''https://picsum.photos/600/400'', ImgStr ''https://example.com/b.png'']"
    by (simp add: blog_store_def image_or_fallback_def fallback_image_def)
  note all = query_resolvers_keep_data [where s = blog_store and tn = tn and qid = "IdNum 2" and i = 1]
  note cm = query_resolvers_keep_data [where s = blog_store and tn = tn and qid = "IdNum 1" and i = 1]
  from all hu have a: "u_avatar (users_arr (snd (user tn (IdNum 2) blog_store)) ! 1) = Some AvatarFn"
    by blast
  from all hp have b: "p_author (posts_arr (snd (post tn (IdNum 2) blog_store)) ! 1) = Some (UserOfPost (Some 1))"
    by blast
  from all have "map p_image (posts_arr (snd (posts blog_store))) =
      map (\<lambda>p. image_or_fallback (p_image p)) (posts_arr blog_store)"
    by blast
  with defaulted have c: "map p_image (posts_arr (snd (posts blog_store))) =
      [ImgStr ''https://picsum.photos/600/400'', ImgStr ''https://example.com/b.png'']"
    by simp
  from cm have "data_kept blog_store (snd (comments tn (IdNum 1) blog_store))"
    by blast
  then have d: "map post_data (posts_arr (snd (comments tn (IdNum 1) blog_store))) = map post_data (posts_arr blog_store)"
    by (simp add: data_kept_def)
  from hu hp before a b c d
  show "fst (user tn (IdNum 2) blog_store) = Some 1 \<and>
     u_avatar (users_arr blog_store ! 1) = None \<and>
     u_avatar (users_arr (snd (user tn (IdNum 2) blog_store)) ! 1) = Some AvatarFn \<and>
     fst (post tn (IdNum 2) blog_store) = Some 1 \<and>
     p_author (posts_arr blog_store ! 1) = None \<and>
     p_author (posts_arr (snd (post tn (IdNum 2) blog_store)) ! 1) = Some (UserOfPost (Some 1)) \<and>
     map p_image (posts_arr blog_store) = [ImgUndefined, ImgStr ''https://example.com/b.png''] \<and>
     map p_image (posts_arr (snd (posts blog_store))) =
       [ImgStr ''https://picsum.photos/600/400'', ImgStr ''https://example.com/b.png''] \<and>
     map post_data (posts_arr (snd (comments tn (IdNum 1) blog_store))) = map post_data (posts_arr blog_store)"
    by (simp only: simp_thms)
qed

text \<open>
  The claim as first stated fails on the seeded store: \<^verbatim>\<open>posts()\<close> replaces the absent image
  of the stored post by the fallback URL, and \<^verbatim>\<open>users()\<close> leaves the avatar function on
  the stored user, so the store after either query differs from the store before it.
\<close>

theorem query_read_only_counterexample:
  "p_image (posts_arr seed_store ! 0) = ImgUndefined \<and>
   p_image (posts_arr (snd (posts seed_store)) ! 0) = ImgStr ''https://picsum.photos/600/400'' \<and>
   u_avatar (users_arr seed_store ! 0) = None \<and>
   u_avatar (users_arr (snd (users seed_store)) ! 0) = Some AvatarFn \<and>
   snd (posts seed_store) \<noteq> seed_store \<and>
   snd (users seed_store) \<noteq> seed_store"
proof -
  have a: "p_image (posts_arr seed_store ! 0) = ImgUndefined"
    "u_avatar (users_arr seed_store ! 0) = None"
    by (simp_all add: seed_store_def)
  have b: "p_image (posts_arr (snd (posts seed_store)) ! 0) = ImgStr ''https://picsum.photos/600/400''"
    by (simp add: seed_store_def eval_defs fallback_image_def)
  have c: "u_avatar (users_arr (snd (users seed_store)) ! 0) = Some AvatarFn"
    by (simp add: seed_store_def eval_defs)
  from a(1) b have d: "snd (posts seed_store) \<noteq> seed_store"
    by (metis js_image.distinct(3))
  from a(2) c have e: "snd (users seed_store) \<noteq> seed_store"
    by (metis option.distinct(1))
  from a b c d e show ?thesis by simp
qed

text \<open>
  Claim C4. For a comment returned by \<^verbatim>\<open>comments(postId)\<close> when \<^verbatim>\<open>post(postId)\<close> finds the
  post \<open>p\<close>, resolving the author of the comment is the call \<^verbatim>\<open>user(p.authorId)\<close>, and
  resolving its post gives \<open>p\<close>; the comment's own \<^verbatim>\<open>authorId\<close> is not read.
\<close>

theorem comment_author_from_post:
  assumes "c \<in> set (fst (comments tn postId s))"
    and "fst (post tn postId s) = Some p"
  shows "resolve_comment_author tn c (snd (comments tn postId s)) =
           Inr (user tn (p_authorId (posts_arr s ! p)) (snd (comments tn postId s))) \<and>
         resolve_comment_post c (snd (comments tn postId s)) = Some p"
proof -
  let ?refs = "fst (comments tn postId s)"
  let ?s' = "snd (comments tn postId s)"
  have s': "?s' = fold (comments_cb tn postId) ?refs s"
    by (simp add: comments_def Let_def)
  from assms(1) have inside: "c < length (comments_arr s)"
    by (simp add: comments_refs)
  have "c_author (comments_arr (fold (comments_cb tn postId) ?refs s) ! c) = Some (UserOfPost (fst (post tn postId s)))"
    by (rule fold_comments_cb_author [OF assms(1) inside])
  with assms(2) s' have author: "c_author (comments_arr ?s' ! c) = Some (UserOfPost (Some p))"
    by simp
  have "c_post (comments_arr (fold (comments_cb tn postId) ?refs s) ! c) = Some (ConstPost (fst (post tn postId s)))"
    by (rule fold_comments_cb_post [OF assms(1) inside])
  with assms(2) s' have parent: "c_post (comments_arr ?s' ! c) = Some (ConstPost (Some p))"
    by simp
  from post_result [OF assms(2)] have p_inside: "p < length (posts_arr s)" by simp
  have pd: "map post_data (posts_arr s) = map post_data (posts_arr ?s')"
    using comments_frame [of tn postId s] by simp
  have "post_data (posts_arr s ! p) = post_data (posts_arr ?s' ! p)"
    by (rule map_eq_nth [OF pd p_inside])
  then have "p_authorId (posts_arr ?s' ! p) = p_authorId (posts_arr s ! p)"
    by (simp add: post_data_def)
  with author parent show ?thesis
    by (simp add: resolve_comment_author_def resolve_comment_post_def)
qed

text \<open>On \<open>blog_store\<close> the comment on post 1 was written by user 2, and its author
  resolves to user 1, the author of the post.\<close>

theorem comment_author_from_post_witness:
  "\<forall>tn.
     0 \<in> set (fst (comments tn (IdNum 1) blog_store)) \<and>
     fst (post tn (IdNum 1) blog_store) = Some 0 \<and>
     p_authorId (posts_arr blog_store ! 0) = IdNum 1 \<and>
     c_authorId (comments_arr blog_store ! 0) = IdNum 2 \<and>
     resolve_comment_author tn 0 (snd (comments tn (IdNum 1) blog_store)) =
       Inr (user tn (IdNum 1) (snd (comments tn (IdNum 1) blog_store))) \<and>
     fst (user tn (IdNum 1) (snd (comments tn (IdNum 1) blog_store))) = Some 0 \<and>
     fst (user tn (IdNum 2) (snd (comments tn (IdNum 1) blog_store))) = Some 1"
proof
  fix tn :: to_number
  have c: "0 \<in> set (fst (comments tn (IdNum 1) blog_store))"
    by (simp add: blog_store_def eval_defs)
  have p: "fst (post tn (IdNum 1) blog_store) = Some 0"
    by (simp add: blog_store_def eval_defs)
  have ids: "p_authorId (posts_arr blog_store ! 0) = IdNum 1"
    "c_authorId (comments_arr blog_store ! 0) = IdNum 2"
    by (simp_all add: blog_store_def)
  have us: "fst (user tn (IdNum 1) (snd (comments tn (IdNum 1) blog_store))) = Some 0"
    "fst (user tn (IdNum 2) (snd (comments tn (IdNum 1) blog_store))) = Some 1"
    by (simp_all add: blog_store_def eval_defs)
  from comment_author_from_post [OF c p] c p ids us
  show "0 \<in> set (fst (comments tn (IdNum 1) blog_store)) \<and>
     fst (post tn (IdNum 1) blog_store) = Some 0 \<and>
     p_authorId (posts_arr blog_store ! 0) = IdNum 1 \<and>
     c_authorId (comments_arr blog_store ! 0) = IdNum 2 \<and>
     resolve_comment_author tn 0 (snd (comments tn (IdNum 1) blog_store)) =
       Inr (user tn (IdNum 1) (snd (comments tn (IdNum 1) blog_store))) \<and>
     fst (user tn (IdNum 1) (snd (comments tn (IdNum 1) blog_store))) = Some 0 \<and>
     fst (user tn (IdNum 2) (snd (comments tn (IdNum 1) blog_store))) = Some 1"
    by (simp only: simp_thms)
qed

text \<open>
  Claim C5. \<^verbatim>\<open>posts()\<close> leaves a non-empty image of a stored post unchanged and stores the
  fallback URL when the image is \<^verbatim>\<open>undefined\<close>, \<^verbatim>\<open>null\<close> or the empty string;
  \<^verbatim>\<open>post(id)\<close> stores the fallback URL in the post it finds whatever the image was.
\<close>

theorem image_fallback_asymmetry:
  "(i < length (posts_arr s) \<and> p_image (posts_arr s ! i) = ImgStr v \<and> v \<noteq> [] \<longrightarrow>
      p_image (posts_arr (snd (posts s)) ! i) = ImgStr v) \<and>
   (i < length (posts_arr s) \<and> p_image (posts_arr s ! i) \<in> {ImgUndefined, ImgNull, ImgStr []} \<longrightarrow>
      p_image (posts_arr (snd (posts s)) ! i) = ImgStr fallback_image) \<and>
   (fst (post tn qid s) = Some i \<longrightarrow>
      p_image (posts_arr (snd (post tn qid s)) ! i) = ImgStr fallback_image)"
proof -
  have kept: "p_image (posts_arr (snd (posts s)) ! i) = ImgStr v"
    if "i < length (posts_arr s) \<and> p_image (posts_arr s ! i) = ImgStr v \<and> v \<noteq> []"
    using that posts_image [of i s] by (simp add: image_or_fallback_def)
  have filled: "p_image (posts_arr (snd (posts s)) ! i) = ImgStr fallback_image"
    if "i < length (posts_arr s) \<and> p_image (posts_arr s ! i) \<in> {ImgUndefined, ImgNull, ImgStr []}"
    using that posts_image [of i s] by (auto simp: image_or_fallback_def)
  have forced: "p_image (posts_arr (snd (post tn qid s)) ! i) = ImgStr fallback_image"
    if hit: "fst (post tn qid s) = Some i"
  proof -
    from post_result [OF hit] have "i < length (posts_arr s)" by simp
    then show ?thesis by (simp add: post_state [OF hit] set_post_def)
  qed
  from kept filled forced show ?thesis by blast
qed

text \<open>On \<open>blog_store\<close> the image of the second post survives \<^verbatim>\<open>posts()\<close> and is replaced
  by \<^verbatim>\<open>post(2)\<close>.\<close>

theorem image_fallback_asymmetry_witness:
  "\<forall>tn.
     p_image (posts_arr blog_store ! 1) = ImgStr ''https://example.com/b.png'' \<and>
     p_image (posts_arr (snd (posts blog_store)) ! 1) = ImgStr ''https://example.com/b.png'' \<and>
     p_image (posts_arr blog_store ! 0) = ImgUndefined \<and>
     p_image (posts_arr (snd (posts blog_store)) ! 0) = ImgStr ''https://picsum.photos/600/400'' \<and>
     fst (post tn (IdNum 2) blog_store) = Some 1 \<and>
     p_image (posts_arr (snd (post tn (IdNum 2) blog_store)) ! 1) = ImgStr ''https://picsum.photos/600/400''"
proof
  fix tn :: to_number
  have k: "1 < length (posts_arr blog_store) \<and>
      p_image (posts_arr blog_store ! 1) = ImgStr ''https://example.com/b.png'' \<and>
      ''https://example.com/b.png'' \<noteq> []"
    by (simp add: blog_store_def)
  have f: "0 < length (posts_arr blog_store) \<and>
      p_image (posts_arr blog_store ! 0) \<in> {ImgUndefined, ImgNull, ImgStr []}"
    by (simp add: blog_store_def)
  have u: "p_image (posts_arr blog_store ! 0) = ImgUndefined"
    by (simp add: blog_store_def)
  have hit: "fst (post tn (IdNum 2) blog_store) = Some 1"
    by (simp add: blog_store_def eval_defs)
  note a = image_fallback_asymmetry [where i = 1 and s = blog_store and v = "''https://example.com/b.png''",
      THEN conjunct1, THEN mp, OF k]
  note b = image_fallback_asymmetry [where i = 0 and s = blog_store, THEN conjunct2, THEN conjunct1, THEN mp, OF f]
  note c = image_fallback_asymmetry [where i = 1 and s = blog_store and tn = tn and qid = "IdNum 2",
      THEN conjunct2, THEN conjunct2, THEN mp, OF hit]
  from k u hit a b c
  show "p_image (posts_arr blog_store ! 1) = ImgStr ''https://example.com/b.png'' \<and>
     p_image (posts_arr (snd (posts blog_store)) ! 1) = ImgStr ''https://example.com/b.png'' \<and>
     p_image (posts_arr blog_store ! 0) = ImgUndefined \<and>
     p_image (posts_arr (snd (posts blog_store)) ! 0) = ImgStr ''https://picsum.photos/600/400'' \<and>
     fst (post tn (IdNum 2) blog_store) = Some 1 \<and>
     p_image (posts_arr (snd (post tn (IdNum 2) blog_store)) ! 1) = ImgStr ''https://picsum.photos/600/400''"
    by (simp only: fallback_image_def simp_thms)
qed

text \<open>
  Claim C6. \<^verbatim>\<open>addPost\<close> and \<^verbatim>\<open>addComment\<close> append one entity, and the id of the
  appended entity is the number of entities the array held before, plus 1.
\<close>

theorem new_id_is_count_plus_one:
  "length (posts_arr (snd (addPost tn inp now s))) = length (posts_arr s) + 1 \<and>
   p_id (posts_arr (snd (addPost tn inp now s)) ! length (posts_arr s)) = IdNum (int (length (posts_arr s)) + 1) \<and>
   length (comments_arr (snd (addComment tn cin now s))) = length (comments_arr s) + 1 \<and>
   c_id (comments_arr (snd (addComment tn cin now s)) ! length (comments_arr s)) = IdNum (int (length (comments_arr s)) + 1)"
proof -
  let ?np = "\<lparr>p_id = IdNum (int (length (posts_arr s)) + 1), p_title = pi_title inp,
              p_text = pi_text inp, p_authorId = pi_authorId inp, p_image = pi_image inp,
              p_createdAt = now, p_author = None, p_comments = None\<rparr>"
  let ?s1 = "s\<lparr>posts_arr := posts_arr s @ [?np]\<rparr>"
  have ap: "snd (addPost tn inp now s) = snd (post tn (p_id ?np) ?s1)"
    by (simp add: addPost_def Let_def)
  have pd: "map post_data (posts_arr (snd (addPost tn inp now s))) = map post_data (posts_arr ?s1)"
    unfolding ap by (rule post_frame(3))
  then have "length (map post_data (posts_arr (snd (addPost tn inp now s)))) = length (map post_data (posts_arr ?s1))"
    by simp
  then have len_p: "length (posts_arr (snd (addPost tn inp now s))) = length (posts_arr s) + 1"
    by simp
  have "post_data (posts_arr ?s1 ! length (posts_arr s)) = post_data (posts_arr (snd (addPost tn inp now s)) ! length (posts_arr s))"
    by (rule map_eq_nth [OF pd [symmetric]]) simp
  then have id_p: "p_id (posts_arr (snd (addPost tn inp now s)) ! length (posts_arr s)) = IdNum (int (length (posts_arr s)) + 1)"
    by (simp add: post_data_def)
  let ?nc = "\<lparr>c_id = IdNum (int (length (comments_arr s)) + 1), c_text = ci_text cin,
              c_authorId = ci_authorId cin, c_createdAt = now, c_postId = ci_postId cin,
              c_post = None, c_author = None\<rparr>"
  let ?t1 = "s\<lparr>comments_arr := comments_arr s @ [?nc]\<rparr>"
  have ac: "snd (addComment tn cin now s) = snd (comments tn (ci_postId cin) ?t1)"
    by (simp add: addComment_def Let_def split: prod.splits)
  have cd: "map comment_data (comments_arr (snd (addComment tn cin now s))) = map comment_data (comments_arr ?t1)"
    unfolding ac by (simp add: comments_def Let_def fold_comments_cb_frame)
  then have "length (map comment_data (comments_arr (snd (addComment tn cin now s)))) = length (map comment_data (comments_arr ?t1))"
    by simp
  then have len_c: "length (comments_arr (snd (addComment tn cin now s))) = length (comments_arr s) + 1"
    by simp
  have "comment_data (comments_arr ?t1 ! length (comments_arr s)) = comment_data (comments_arr (snd (addComment tn cin now s)) ! length (comments_arr s))"
    by (rule map_eq_nth [OF cd [symmetric]]) simp
  then have id_c: "c_id (comments_arr (snd (addComment tn cin now s)) ! length (comments_arr s)) = IdNum (int (length (comments_arr s)) + 1)"
    by (simp add: comment_data_def)
  from len_p id_p len_c id_c show ?thesis by simp
qed

text \<open>
  Claim C7. When no stored comment belongs to the input's \<^verbatim>\<open>postId\<close>, \<^verbatim>\<open>addComment\<close>
  returns the comment it appended (not null), holding the input's text, author and post
  ids, the creation time and the id count + 1, and \<^verbatim>\<open>comments(postId)\<close> afterwards
  returns exactly that comment.
\<close>

theorem addComment_first_comment:
  assumes "\<forall>c \<in> set (comments_arr s). \<not> loose_eq tn (c_postId c) (ci_postId cin)"
  shows "fst (addComment tn cin now s) = Some (length (comments_arr s)) \<and>
         comment_data (comments_arr (snd (addComment tn cin now s)) ! length (comments_arr s)) =
           (IdNum (int (length (comments_arr s)) + 1), ci_text cin, ci_authorId cin, now, ci_postId cin) \<and>
         fst (comments tn (ci_postId cin) (snd (addComment tn cin now s))) = [length (comments_arr s)]"
proof -
  let ?n = "length (comments_arr s)"
  let ?q = "ci_postId cin"
  let ?nc = "\<lparr>c_id = IdNum (int ?n + 1), c_text = ci_text cin, c_authorId = ci_authorId cin,
              c_createdAt = now, c_postId = ?q, c_post = None, c_author = None\<rparr>"
  let ?s1 = "s\<lparr>comments_arr := comments_arr s @ [?nc]\<rparr>"
  let ?s2 = "snd (comments tn ?q ?s1)"
  have old: "filter (\<lambda>i. loose_eq tn (c_postId (comments_arr ?s1 ! i)) ?q) [0..<?n] = []"
  proof -
    have "\<not> loose_eq tn (c_postId (comments_arr ?s1 ! i)) ?q" if "i \<in> set [0..<?n]" for i
    proof -
      from that have "i < ?n" by simp
      then have "comments_arr ?s1 ! i = comments_arr s ! i" and "comments_arr s ! i \<in> set (comments_arr s)"
        by (simp_all add: nth_append)
      with assms show ?thesis by simp
    qed
    then show ?thesis by (intro filter_False ballI)
  qed
  have new: "loose_eq tn (c_postId (comments_arr ?s1 ! ?n)) ?q"
    by (simp add: loose_eq_refl)
  have "fst (comments tn ?q ?s1) =
      filter (\<lambda>i. loose_eq tn (c_postId (comments_arr ?s1 ! i)) ?q) ([0..<?n] @ [?n])"
    by (simp add: comments_refs)
  also have "\<dots> = [?n]"
    using old new by (simp only: filter_append filter.simps if_True append_Nil)
  finally have refs: "fst (comments tn ?q ?s1) = [?n]" .
  have cd: "map comment_data (comments_arr ?s2) = map comment_data (comments_arr ?s1)"
    using comments_frame [of tn ?q ?s1] by simp
  have len2: "length (comments_arr ?s2) = Suc ?n"
    using comments_frame [of tn ?q ?s1] by simp
  have "comment_data (comments_arr ?s2 ! ?n) = comment_data (comments_arr ?s1 ! ?n)"
    by (rule map_eq_nth [OF cd]) (simp add: len2)
  then have data: "comment_data (comments_arr ?s2 ! ?n) =
      (IdNum (int ?n + 1), ci_text cin, ci_authorId cin, now, ?q)"
    by (simp add: comment_data_def)
  then have new_id: "c_id (comments_arr ?s2 ! ?n) = IdNum (int ?n + 1)"
    by (simp add: comment_data_def)
  have res: "addComment tn cin now s =
      (find (\<lambda>c. loose_eq tn (c_id (comments_arr ?s2 ! c)) (IdNum (int ?n + 1))) (fst (comments tn ?q ?s1)), ?s2)"
    by (simp add: addComment_def Let_def split: prod.splits)
  have found: "fst (addComment tn cin now s) = Some ?n"
    unfolding res refs using new_id by simp
  have state: "snd (addComment tn cin now s) = ?s2"
    unfolding res by simp
  have "fst (comments tn ?q ?s2) = fst (comments tn ?q ?s1)"
    by (rule comments_refs_cong [OF cd])
  with refs have again: "fst (comments tn ?q ?s2) = [?n]" by simp
  from found data again show ?thesis
    unfolding state by simp
qed

text \<open>The scenario of the specification: on the seeded store,
  \<^verbatim>\<open>addComment({authorId:1, postId:1, text:"hi"})\<close> returns the comment with id 1, text
  \<^verbatim>\<open>hi\<close> and postId 1, and \<^verbatim>\<open>comments(postId:1)\<close> then returns that one entry.\<close>

theorem addComment_first_comment_witness:
  "\<forall>tn.
     fst (addComment tn hi_comment ''now'' seed_store) = Some 0 \<and>
     c_id (comments_arr (snd (addComment tn hi_comment ''now'' seed_store)) ! 0) = IdNum 1 \<and>
     c_text (comments_arr (snd (addComment tn hi_comment ''now'' seed_store)) ! 0) = ''hi'' \<and>
     c_postId (comments_arr (snd (addComment tn hi_comment ''now'' seed_store)) ! 0) = IdNum 1 \<and>
     fst (comments tn (IdNum 1) (snd (addComment tn hi_comment ''now'' seed_store))) = [0]"
proof
  fix tn :: to_number
  have none: "\<forall>c \<in> set (comments_arr seed_store). \<not> loose_eq tn (c_postId c) (ci_postId hi_comment)"
    by (simp add: seed_store_def)
  have n: "length (comments_arr seed_store) = 0"
    by (simp add: seed_store_def)
  have q: "ci_postId hi_comment = IdNum 1" "ci_text hi_comment = ''hi''"
    by (simp_all add: hi_comment_def)
  from addComment_first_comment [OF none, of "''now''"]
  show "fst (addComment tn hi_comment ''now'' seed_store) = Some 0 \<and>
     c_id (comments_arr (snd (addComment tn hi_comment ''now'' seed_store)) ! 0) = IdNum 1 \<and>
     c_text (comments_arr (snd (addComment tn hi_comment ''now'' seed_store)) ! 0) = ''hi'' \<and>
     c_postId (comments_arr (snd (addComment tn hi_comment ''now'' seed_store)) ! 0) = IdNum 1 \<and>
     fst (comments tn (IdNum 1) (snd (addComment tn hi_comment ''now'' seed_store))) = [0]"
    by (simp add: n q comment_data_def)
qed

text \<open>
  Claim C8. \<^verbatim>\<open>comments(postId)\<close> returns, once each and in the order of the store, the
  references of exactly the stored comments whose \<^verbatim>\<open>postId\<close> \<^verbatim>\<open>==\<close> the argument, and
  the data of the stored comments is what it was. This holds for every reading \<open>tn\<close> of
  strings as numbers, hence for the runtime's.
\<close>

theorem comments_exactly_matching:
  "distinct (fst (comments tn postId s)) \<and> sorted (fst (comments tn postId s)) \<and>
   (\<forall>i. i \<in> set (fst (comments tn postId s)) \<longleftrightarrow>
        i < length (comments_arr s) \<and> loose_eq tn (c_postId (comments_arr s ! i)) postId) \<and>
   length (comments_arr (snd (comments tn postId s))) = length (comments_arr s) \<and>
   map comment_data (comments_arr (snd (comments tn postId s))) = map comment_data (comments_arr s)"
proof -
  have d: "distinct (fst (comments tn postId s))"
    by (simp add: comments_refs)
  have o: "sorted (fst (comments tn postId s))"
    by (simp add: comments_refs sorted_wrt_filter)
  have m: "\<forall>i. i \<in> set (fst (comments tn postId s)) \<longleftrightarrow>
        i < length (comments_arr s) \<and> loose_eq tn (c_postId (comments_arr s ! i)) postId"
    by (simp add: comments_refs)
  from d o m comments_frame [of tn postId s] show ?thesis by simp
qed

text \<open>On \<open>blog_store\<close>, \<^verbatim>\<open>comments(1)\<close> returns the comment on post 1 and not the comment
  on post 9.\<close>

theorem comments_exactly_matching_witness:
  "\<forall>tn.
     fst (comments tn (IdNum 1) blog_store) = [0] \<and>
     loose_eq tn (c_postId (comments_arr blog_store ! 0)) (IdNum 1) \<and>
     \<not> loose_eq tn (c_postId (comments_arr blog_store ! 1)) (IdNum 1) \<and>
     1 \<notin> set (fst (comments tn (IdNum 1) blog_store))"
proof
  fix tn :: to_number
  have a: "loose_eq tn (c_postId (comments_arr blog_store ! 0)) (IdNum 1)"
    and b: "\<not> loose_eq tn (c_postId (comments_arr blog_store ! 1)) (IdNum 1)"
    by (simp_all add: blog_store_def)
  have r: "fst (comments tn (IdNum 1) blog_store) = [0]"
    by (simp add: blog_store_def eval_defs)
  from comments_exactly_matching [of tn "IdNum 1" blog_store] b
  have "1 \<notin> set (fst (comments tn (IdNum 1) blog_store))" by blast
  with a b r
  show "fst (comments tn (IdNum 1) blog_store) = [0] \<and>
     loose_eq tn (c_postId (comments_arr blog_store ! 0)) (IdNum 1) \<and>
     \<not> loose_eq tn (c_postId (comments_arr blog_store ! 1)) (IdNum 1) \<and>
     1 \<notin> set (fst (comments tn (IdNum 1) blog_store))"
    by simp
qed

text \<open>
  Claim C9. For a user returned by \<^verbatim>\<open>user(id)\<close> or listed by \<^verbatim>\<open>users()\<close>, the avatar
  resolves to \<^verbatim>\<open>avatar(S_512)\<close> when the size is \<^verbatim>\<open>S_512\<close> and to \<^verbatim>\<open>avatar(S_128)\<close>
  when the argument is left out; the first URL includes \<^verbatim>\<open>512\<close>, the second \<^verbatim>\<open>128\<close>.
\<close>

theorem avatar_url_sizes:
  "(fst (user tn qid s) = Some u \<longrightarrow>
      resolve_avatar u (Some S_512) (snd (user tn qid s)) = Some (avatar S_512) \<and>
      resolve_avatar u None (snd (user tn qid s)) = Some (avatar S_128)) \<and>
   (u \<in> set (fst (users s)) \<longrightarrow>
      resolve_avatar u (Some S_512) (snd (users s)) = Some (avatar S_512) \<and>
      resolve_avatar u None (snd (users s)) = Some (avatar S_128)) \<and>
   str_includes (avatar S_512) ''512'' \<and> str_includes (avatar S_128) ''128''"
proof -
  have one: "resolve_avatar u (Some S_512) (snd (user tn qid s)) = Some (avatar S_512) \<and>
      resolve_avatar u None (snd (user tn qid s)) = Some (avatar S_128)"
    if hit: "fst (user tn qid s) = Some u"
  proof -
    from user_result [OF hit] have "u < length (users_arr s)" by simp
    then have "u_avatar (users_arr (snd (user tn qid s)) ! u) = Some AvatarFn"
      by (simp add: user_state [OF hit] set_user_def)
    then show ?thesis by (simp add: resolve_avatar_def)
  qed
  have all: "resolve_avatar u (Some S_512) (snd (users s)) = Some (avatar S_512) \<and>
      resolve_avatar u None (snd (users s)) = Some (avatar S_128)"
    if listed: "u \<in> set (fst (users s))"
  proof -
    from listed have mem: "u \<in> set [0..<length (users_arr s)]"
      by (simp add: users_def Let_def)
    then have inside: "u < length (users_arr s)" by simp
    have "u_avatar (users_arr (fold users_cb [0..<length (users_arr s)] s) ! u) = Some AvatarFn"
      by (rule fold_users_cb_avatar [OF mem inside])
    then have "u_avatar (users_arr (snd (users s)) ! u) = Some AvatarFn"
      by (simp add: users_def Let_def)
    then show ?thesis by (simp add: resolve_avatar_def)
  qed
  have urls: "str_includes (avatar S_512) ''512'' \<and> str_includes (avatar S_128) ''128''"
    by (simp add: avatar_def enum_name_def)
  from one all urls show ?thesis by blast
qed

text \<open>On \<open>blog_store\<close>, with the URLs written out.\<close>

theorem avatar_url_sizes_witness:
  "\<forall>tn.
     fst (user tn (IdNum 2) blog_store) = Some 1 \<and>
     resolve_avatar 1 (Some S_512) (snd (user tn (IdNum 2) blog_store)) = Some ''https://picsum.photos/512'' \<and>
     resolve_avatar 1 None (snd (user tn (IdNum 2) blog_store)) = Some ''https://picsum.photos/128'' \<and>
     0 \<in> set (fst (users blog_store)) \<and>
     resolve_avatar 0 (Some S_512) (snd (users blog_store)) = Some ''https://picsum.photos/512'' \<and>
     resolve_avatar 0 None (snd (users blog_store)) = Some ''https://picsum.photos/128''"
proof
  fix tn :: to_number
  have hit: "fst (user tn (IdNum 2) blog_store) = Some 1"
    by (simp add: blog_store_def eval_defs)
  have listed: "0 \<in> set (fst (users blog_store))"
    by (simp add: blog_store_def users_def)
  have urls: "avatar S_512 = ''https://picsum.photos/512''" "avatar S_128 = ''https://picsum.photos/128''"
    by (simp_all add: avatar_def enum_name_def)
  note a = avatar_url_sizes [where tn = tn and qid = "IdNum 2" and s = blog_store and u = 1,
      THEN conjunct1, THEN mp, OF hit]
  note b = avatar_url_sizes [where s = blog_store and u = 0, THEN conjunct2, THEN conjunct1, THEN mp, OF listed]
  from hit listed a b
  show "fst (user tn (IdNum 2) blog_store) = Some 1 \<and>
     resolve_avatar 1 (Some S_512) (snd (user tn (IdNum 2) blog_store)) = Some ''https://picsum.photos/512'' \<and>
     resolve_avatar 1 None (snd (user tn (IdNum 2) blog_store)) = Some ''https://picsum.photos/128'' \<and>
     0 \<in> set (fst (users blog_store)) \<and>
     resolve_avatar 0 (Some S_512) (snd (users blog_store)) = Some ''https://picsum.photos/512'' \<and>
     resolve_avatar 0 None (snd (users blog_store)) = Some ''https://picsum.photos/128''"
    by (simp only: urls simp_thms)
qed

text \<open>
  Claim C10. Whenever \<^verbatim>\<open>post(postId)\<close> finds no post, every comment that
  \<^verbatim>\<open>comments(postId)\<close> returns has been given a post function that returns
  \<^verbatim>\<open>undefined\<close> and an author function that reads \<^verbatim>\<open>post.authorId\<close> of
  \<^verbatim>\<open>undefined\<close>: resolving the author throws instead of giving null. Such a store
  exists: in \<open>blog_store\<close> no comment carries a function, the second comment belongs to
  post 9, no post has that id, \<^verbatim>\<open>comments(9)\<close> returns that comment, and resolving its
  author throws.
\<close>

theorem orphan_comment_author_raises:
  "(fst (post tn postId s) = None \<and> c \<in> set (fst (comments tn postId s)) \<longrightarrow>
      resolve_comment_post c (snd (comments tn postId s)) = None \<and>
      resolve_comment_author tn c (snd (comments tn postId s)) = Inl TypeError) \<and>
   (list_all (\<lambda>x. c_post x = None \<and> c_author x = None) (comments_arr blog_store) \<and>
    c_postId (comments_arr blog_store ! 1) = IdNum 9 \<and>
    fst (post tn (IdNum 9) blog_store) = None \<and>
    fst (comments tn (IdNum 9) blog_store) = [1] \<and>
    resolve_comment_author tn 1 (snd (comments tn (IdNum 9) blog_store)) = Inl TypeError)"
proof -
  have every: "resolve_comment_post c (snd (comments tn postId s)) = None \<and>
      resolve_comment_author tn c (snd (comments tn postId s)) = Inl TypeError"
    if h: "fst (post tn postId s) = None \<and> c \<in> set (fst (comments tn postId s))"
  proof -
    let ?refs = "fst (comments tn postId s)"
    let ?s' = "snd (comments tn postId s)"
    from h have miss: "fst (post tn postId s) = None" and listed: "c \<in> set ?refs"
      by simp_all
    have s': "?s' = fold (comments_cb tn postId) ?refs s"
      by (simp add: comments_def Let_def)
    from listed have inside: "c < length (comments_arr s)"
      by (simp add: comments_refs)
    have "c_author (comments_arr (fold (comments_cb tn postId) ?refs s) ! c) =
        Some (UserOfPost (fst (post tn postId s)))"
      by (rule fold_comments_cb_author [OF listed inside])
    with miss s' have author: "c_author (comments_arr ?s' ! c) = Some (UserOfPost None)"
      by simp
    have "c_post (comments_arr (fold (comments_cb tn postId) ?refs s) ! c) =
        Some (ConstPost (fst (post tn postId s)))"
      by (rule fold_comments_cb_post [OF listed inside])
    with miss s' have parent: "c_post (comments_arr ?s' ! c) = Some (ConstPost None)"
      by simp
    from author parent show ?thesis
      by (simp add: resolve_comment_author_def resolve_comment_post_def)
  qed
  have here: "list_all (\<lambda>x. c_post x = None \<and> c_author x = None) (comments_arr blog_store) \<and>
      c_postId (comments_arr blog_store ! 1) = IdNum 9 \<and>
      fst (post tn (IdNum 9) blog_store) = None \<and>
      fst (comments tn (IdNum 9) blog_store) = [1] \<and>
      resolve_comment_author tn 1 (snd (comments tn (IdNum 9) blog_store)) = Inl TypeError"
    by (simp add: eval_defs blog_store_def)
  from every here show ?thesis by blast
qed

text \<open>On \<open>blog_store\<close>, where no comment carries a function yet: the comment on post 9 is
  returned by \<^verbatim>\<open>comments(9)\<close>, its post resolves to nothing and its author throws.\<close>

theorem orphan_comment_author_raises_witness:
  "\<forall>tn.
     fst (post tn (IdNum 9) blog_store) = None \<and>
     1 \<in> set (fst (comments tn (IdNum 9) blog_store)) \<and>
     c_author (comments_arr blog_store ! 1) = None \<and>
     resolve_comment_post 1 (snd (comments tn (IdNum 9) blog_store)) = None \<and>
     resolve_comment_author tn 1 (snd (comments tn (IdNum 9) blog_store)) = Inl TypeError"
proof
  fix tn :: to_number
  have h: "fst (post tn (IdNum 9) blog_store) = None \<and>
      1 \<in> set (fst (comments tn (IdNum 9) blog_store))"
    by (simp add: eval_defs blog_store_def)
  have fresh: "c_author (comments_arr blog_store ! 1) = None"
    by (simp add: blog_store_def)
  note raised = orphan_comment_author_raises [where tn = tn and postId = "IdNum 9" and s = blog_store and c = 1,
      THEN conjunct1, THEN mp, OF h]
  from h fresh raised
  show "fst (post tn (IdNum 9) blog_store) = None \<and>
     1 \<in> set (fst (comments tn (IdNum 9) blog_store)) \<and>
     c_author (comments_arr blog_store ! 1) = None \<and>
     resolve_comment_post 1 (snd (comments tn (IdNum 9) blog_store)) = None \<and>
     resolve_comment_author tn 1 (snd (comments tn (IdNum 9) blog_store)) = Inl TypeError"
    by (simp only: simp_thms)
qed

end
